theory Spec2Isabelle
  imports Complex_Main "HOL-Library.Word"
begin

unbundle bit_operations_syntax

section \<open>Attenuation: EEPROM cell, push buttons and the 200 ms gate\<close>

text \<open>
  The sketch runs on an Arduino Uno (ATmega328P): \<open>int\<close> and \<open>size_t\<close> have 16 bits,
  \<open>uint8_t\<close> is \<open>8 word\<close>, \<open>int16_t\<close> is \<open>16 word\<close> read through \<open>sint\<close>, and
  \<open>uint32_t\<close> is \<open>32 word\<close>.

  The globals that the attenuation part of \<open>setup()\<close> and \<open>loop()\<close> touches, together
  with the EEPROM cell at address 0. \<open>ee_writes\<close> is the trace of the bytes assigned to
  \<open>EEPROM[0]\<close>, oldest first; it is the only field that is not a variable of the sketch.
\<close>

record att_state =
  u8Att :: "8 word"
  u8AttLast :: "8 word"
  u32MillisLast :: "32 word"
  eeprom0 :: "8 word"
  ee_writes :: "8 word list"

text \<open>
  What one pass through the attenuation part of \<open>loop()\<close> reads from the outside: the
  three \<open>digitalRead\<close> levels (\<open>True\<close> is HIGH; the inputs have pull-ups, so a pressed
  button reads LOW), the value of \<open>millis()\<close> at line 198 and the value of the second
  call of \<open>millis()\<close> that refreshes \<open>u32MillisLast\<close> (line 234, or line 172 of
  \<open>setup()\<close> when the pass ends in \<open>softReset()\<close>).
\<close>

record loop_in =
  DI_PBU :: bool
  DI_PBM :: bool
  DI_PBL :: bool
  millis_cur :: "32 word"
  millis_rst :: "32 word"

text \<open>
  \<open>setup()\<close>, lines 149-158 and 172. The globals start as \<open>u8Att = 0\<close> and
  \<open>u8AttLast = 0\<close>; the arguments are the byte found in \<open>EEPROM[0]\<close>, the write trace so
  far and the value returned by \<open>millis()\<close>.
\<close>

definition setup_att :: "8 word \<Rightarrow> 8 word list \<Rightarrow> 32 word \<Rightarrow> att_state" where
  "setup_att e w t =
     (if e > 49
      then \<lparr>u8Att = 0, u8AttLast = 0, u32MillisLast = t, eeprom0 = 0, ee_writes = w @ [0]\<rparr>
      else \<lparr>u8Att = e, u8AttLast = e, u32MillisLast = t, eeprom0 = e, ee_writes = w\<rparr>)"

text \<open>Lines 190-192: the button mask, one bit per pressed button.\<close>

definition pushButtons :: "loop_in \<Rightarrow> 16 word" where
  "pushButtons i =
     of_bool (\<not> DI_PBU i) OR push_bit 1 (of_bool (\<not> DI_PBM i)) OR push_bit 2 (of_bool (\<not> DI_PBL i))"

text \<open>
  \<open>softReset()\<close> jumps to address 0 and does not return: the pass is abandoned, the
  runtime clears the globals and \<open>setup()\<close> runs again.
\<close>

datatype 'a outcome = Next 'a | SoftReset

text \<open>The \<open>switch\<close> of lines 204-226 on the mask, acting on \<open>u8Att\<close>.\<close>

definition att_switch :: "16 word \<Rightarrow> 8 word \<Rightarrow> 8 word outcome" where
  "att_switch pb a =
     (if pb = 1 then Next (if a + 1 > 49 then 49 else a + 1)
      else if pb = 2 then Next (if a > 0 then a - 1 else a)
      else if pb = 7 then SoftReset
      else Next a)"

text \<open>The test of line 200 on the two unsigned 32-bit counters.\<close>

definition window_open :: "32 word \<Rightarrow> 32 word \<Rightarrow> bool" where
  "window_open cur lst = (cur - lst > 200)"

text \<open>
  Lines 198-236. The braces of the source put the EEPROM update and the refresh of
  \<open>u32MillisLast\<close> inside \<open>if ( s16pushButtons )\<close>, after the \<open>switch\<close>.
\<close>

definition loop_att :: "loop_in \<Rightarrow> att_state \<Rightarrow> att_state outcome" where
  "loop_att i s =
     (if window_open (millis_cur i) (u32MillisLast s) then
        if pushButtons i \<noteq> 0 then
          (case att_switch (pushButtons i) (u8Att s) of
             SoftReset \<Rightarrow> SoftReset
           | Next a \<Rightarrow>
               let s1 = s\<lparr>u8Att := a\<rparr>;
                   s2 = (if u8Att s1 \<noteq> u8AttLast s1
                         then s1\<lparr>eeprom0 := u8Att s1,
                                 ee_writes := ee_writes s1 @ [u8Att s1],
                                 u8AttLast := u8Att s1\<rparr>
                         else s1)
               in Next (s2\<lparr>u32MillisLast := millis_rst i\<rparr>))
        else Next s
      else Next s)"

text \<open>
  The state at the start of the next pass of \<open>loop()\<close>: after a soft reset it is the
  one \<open>setup()\<close> builds from the EEPROM, which the abandoned pass has not written.
\<close>

definition pass :: "loop_in \<Rightarrow> att_state \<Rightarrow> att_state" where
  "pass i s =
     (case loop_att i s of
        Next s' \<Rightarrow> s'
      | SoftReset \<Rightarrow> setup_att (eeprom0 s) (ee_writes s) (millis_rst i))"

primrec run :: "loop_in list \<Rightarrow> att_state \<Rightarrow> att_state" where
  "run [] s = s"
| "run (i # is) s = run is (pass i s)"

text \<open>
  What \<open>setup()\<close> establishes and every pass keeps: the attenuation is at most 49 and
  agrees with the last stored value and with the EEPROM cell.
\<close>

definition att_inv :: "att_state \<Rightarrow> bool" where
  "att_inv s = (u8Att s \<le> 49 \<and> u8AttLast s = u8Att s \<and> eeprom0 s = u8Att s)"

section \<open>Rolling average of the raw ADC samples\<close>

text \<open>
  One averaging array with its write index: \<open>as16UPwrRaw\<close> with \<open>u8IdxUPwrRaw\<close> for
  the RF power channel, \<open>as16UTempRaw\<close> with \<open>u8IdxUTempRaw\<close> for the temperature
  channel. Lines 240-254 and lines 322-336 are the same code on the two pairs of
  variables, so one model serves both channels.
\<close>

record avg_filter =
  as16URaw :: "16 word list"
  u8IdxURaw :: "8 word"

text \<open>
  Lines 248-252: \<open>s16Tmp = 0\<close>, then \<open>s16Tmp += as16URaw[u8Count]\<close> over the slots in
  index order. The sum is a 16-bit one; \<open>+\<close> on \<open>16 word\<close> wraps, which is what the
  AVR compiler emits when the signed sum leaves the \<open>int16_t\<close> range.
\<close>

primrec accumulate :: "16 word list \<Rightarrow> 16 word \<Rightarrow> 16 word" where
  "accumulate [] s16Tmp = s16Tmp"
| "accumulate (x # xs) s16Tmp = accumulate xs (s16Tmp + x)"

text \<open>
  Line 254: the divisor \<open>sizeof(as16URaw) / 2\<close> is the \<open>size_t\<close> value 20, so
  \<open>s16Tmp\<close> is converted to \<open>unsigned int\<close> and the division is the unsigned 16-bit
  one, which is \<open>div\<close> on \<open>16 word\<close>.
\<close>

definition average :: "16 word list \<Rightarrow> 16 word" where
  "average xs = accumulate xs 0 div 20"

text \<open>
  Lines 240-254 (and 322-336): store the new sample at the write index, advance the
  index and wrap it after slot 19, return the average of the array. The arrays are
  declared with 20 slots; a store outside them is undefined in C and is \<open>None\<close> here.
\<close>

definition filter_insert :: "16 word \<Rightarrow> avg_filter \<Rightarrow> (16 word \<times> avg_filter) option" where
  "filter_insert raw f =
     (if length (as16URaw f) = 20 \<and> unat (u8IdxURaw f) < 20 then
        let a = (as16URaw f)[unat (u8IdxURaw f) := raw];
            ix = (if u8IdxURaw f + 1 > 19 then 0 else u8IdxURaw f + 1)
        in Some (average a, \<lparr>as16URaw = a, u8IdxURaw = ix\<rparr>)
      else None)"

text \<open>
  Successive passes of \<open>loop()\<close> on one channel, one raw sample per pass: the averages
  reported, in order, and the filter left behind.
\<close>

primrec feed :: "16 word list \<Rightarrow> avg_filter \<Rightarrow> (16 word list \<times> avg_filter) option" where
  "feed [] f = Some ([], f)"
| "feed (raw # raws) f =
     (case filter_insert raw f of
        None \<Rightarrow> None
      | Some (a, f') \<Rightarrow>
          (case feed raws f' of
             None \<Rightarrow> None
           | Some (as, f'') \<Rightarrow> Some (a # as, f'')))"

text \<open>An averaging array as declared, with its write index inside it.\<close>

definition filter_ok :: "avg_filter \<Rightarrow> bool" where
  "filter_ok f = (length (as16URaw f) = 20 \<and> unat (u8IdxURaw f) < 20)"

section \<open>RF power: calibration line, validity window and autorange\<close>

text \<open>
  The sketch computes in \<open>float\<close>. The model computes in \<open>real\<close>: rounding of the
  single-precision operations and the text produced by \<open>dtostrf\<close> are not modelled.
\<close>

definition ADCREF :: real where
  "ADCREF = 2.542"

text \<open>Line 264, before the attenuation is added.\<close>

definition dbm_linear :: "16 word \<Rightarrow> real" where
  "dbm_linear s16Tmp =
     (- 2750 / 67) * ((real_of_int (sint s16Tmp) + 0.5) * (ADCREF / 1024)) + (1820 / 67)"

datatype power_unit = NW | UW | MW | W

text \<open>The unit text of the \<open>sprintf\<close> formats of lines 290, 298, 306 and 312.\<close>

primrec unit_suffix :: "power_unit \<Rightarrow> string" where
  "unit_suffix NW = ''nW''"
| "unit_suffix UW = ''uW''"
| "unit_suffix MW = ''mW''"
| "unit_suffix W = ''W ''"

text \<open>Lines 286-315: the unit chosen for \<open>fPwrdBm\<close> and the magnitude \<open>dPwrW\<close>.\<close>

definition autorange :: "real \<Rightarrow> power_unit \<times> real" where
  "autorange fPwrdBm =
     (if fPwrdBm < - 30 then (NW, 10 powr (fPwrdBm / 10) * 1000000)
      else if fPwrdBm < 0 then (UW, 10 powr (fPwrdBm / 10) * 1000)
      else if fPwrdBm < 30 then (MW, 10 powr (fPwrdBm / 10))
      else (W, 10 powr (fPwrdBm / 10) * (1 / 1000)))"

text \<open>
  What lines 264-317 put on the display: \<open>RF_low\<close> is \<open>"RF low! "\<close> over
  \<open>" --.- dBm"\<close>, \<open>RF_ovl\<close> is \<open>"RF ovl! "\<close> over \<open>" --.- dBm"\<close>, and \<open>Power d u m\<close> is
  the dBm value \<open>d\<close> with the magnitude \<open>m\<close> in the unit \<open>u\<close>.
\<close>

datatype power_reading = RF_low | RF_ovl | Power real power_unit real

definition rf_power :: "16 word \<Rightarrow> 8 word \<Rightarrow> power_reading" where
  "rf_power s16Tmp att =
     (if sint s16Tmp > 583 then RF_low
      else if sint s16Tmp < 167 then RF_ovl
      else let fPwrdBm = dbm_linear s16Tmp + real (unat att)
           in Power fPwrdBm (fst (autorange fPwrdBm)) (snd (autorange fPwrdBm)))"

text \<open>Lines 238-317 in one piece: filter the new sample, then classify and convert.\<close>

definition loop_rf_power :: "16 word \<Rightarrow> 8 word \<Rightarrow> avg_filter \<Rightarrow> (power_reading \<times> avg_filter) option" where
  "loop_rf_power raw att f =
     (case filter_insert raw f of
        None \<Rightarrow> None
      | Some (s16Tmp, f') \<Rightarrow> Some (rf_power s16Tmp att, f'))"

section \<open>Auxiliary facts\<close>

subsection \<open>Attenuation\<close>

lemma att_switch_le: "a \<le> 49 \<Longrightarrow> att_switch pb a = Next a' \<Longrightarrow> a' \<le> 49"
  by (auto simp: att_switch_def split: if_splits) unat_arith+

lemma setup_att_inv: "att_inv (setup_att e w t)"
  by (simp add: setup_att_def att_inv_def not_less)

lemma loop_att_inv: "att_inv s \<Longrightarrow> loop_att i s = Next s' \<Longrightarrow> att_inv s'"
  by (auto simp: loop_att_def att_inv_def Let_def split: if_splits outcome.splits
      dest: att_switch_le)

lemma pass_inv: "att_inv s \<Longrightarrow> att_inv (pass i s)"
  by (auto simp: pass_def setup_att_inv split: outcome.splits dest: loop_att_inv)

lemma run_inv: "att_inv s \<Longrightarrow> att_inv (run is s)"
  by (induction "is" arbitrary: s) (auto simp: pass_inv)

lemma pass_closed: "\<not> window_open (millis_cur i) (u32MillisLast s) \<Longrightarrow> pass i s = s"
  by (simp add: pass_def loop_att_def)

lemma pass_idle: "pushButtons i = 0 \<Longrightarrow> pass i s = s"
  by (simp add: pass_def loop_att_def)

lemma pass_timer:
  "window_open (millis_cur i) (u32MillisLast s) \<Longrightarrow> pushButtons i \<noteq> 0 \<Longrightarrow>
     u32MillisLast (pass i s) = millis_rst i"
  by (auto simp: pass_def loop_att_def Let_def setup_att_def split: outcome.splits)

lemma run_closed:
  "\<forall>j\<in>set js. \<not> window_open (millis_cur j) (u32MillisLast s) \<Longrightarrow> run js s = s"
  by (induction js) (simp_all add: pass_closed)

lemma pass_writes:
  assumes "att_inv s"
  shows "ee_writes (pass i s) =
           (if u8Att (pass i s) \<noteq> u8Att s then ee_writes s @ [u8Att (pass i s)] else ee_writes s)"
  using assms
  by (auto simp: pass_def loop_att_def att_inv_def Let_def setup_att_def not_less
      split: outcome.splits)

lemma pass_changed:
  assumes "u8Att (pass i s) \<noteq> u8Att s" and "att_inv s"
  shows "window_open (millis_cur i) (u32MillisLast s) \<and> pushButtons i \<noteq> 0 \<and>
         eeprom0 (pass i s) = u8Att (pass i s)"
proof -
  have o: "window_open (millis_cur i) (u32MillisLast s)"
  proof (rule ccontr)
    assume "\<not> window_open (millis_cur i) (u32MillisLast s)"
    then have "pass i s = s" by (rule pass_closed)
    with assms(1) show False by simp
  qed
  have b: "pushButtons i \<noteq> 0"
  proof
    assume "pushButtons i = 0"
    then have "pass i s = s" by (rule pass_idle)
    with assms(1) show False by simp
  qed
  have "att_inv (pass i s)" using assms(2) by (rule pass_inv)
  then show ?thesis using o b by (simp add: att_inv_def)
qed

lemma pass_upper:
  assumes "pushButtons i = 1" and "window_open (millis_cur i) (u32MillisLast s)"
  shows "u8Att (pass i s) = (if u8Att s + 1 > 49 then 49 else u8Att s + 1)"
  using assms by (simp add: pass_def loop_att_def att_switch_def Let_def)

lemma inc_below_49: "a < (49 :: 8 word) \<Longrightarrow> \<not> a + 1 > 49 \<and> a + 1 \<noteq> a"
proof -
  assume "a < 49"
  then have a: "unat a < 49" by (simp add: word_less_nat_alt)
  then have "unat (a + 1) = unat a + 1" by (simp add: unat_word_ariths)
  then show ?thesis using a by (simp add: word_less_nat_alt word_unat_eq_iff)
qed

lemma inc_at_49: "a \<le> (49 :: 8 word) \<Longrightarrow> \<not> a < 49 \<Longrightarrow> a = 49"
  by unat_arith

subsection \<open>Elapsed time on wrapping counters\<close>

lemma unat_diff_of_nat:
  assumes "T0 \<le> T1" and "T1 - T0 < 2 ^ 32"
  shows "unat ((of_nat T1 :: 32 word) - of_nat T0) = T1 - T0"
proof -
  have e: "(of_nat T1 :: 32 word) - of_nat T0 = of_nat (T1 - T0)" using assms(1) by simp
  show ?thesis by (rule of_nat_inverse) (use assms e in simp_all)
qed

subsection \<open>Sums of 10-bit samples in 16 bits\<close>

lemma accumulate_sum: "accumulate xs acc = acc + sum_list xs"
  by (induction xs arbitrary: acc) (simp_all add: add.assoc)

lemma unat_sum_small:
  "\<forall>x\<in>set xs. x \<le> (1023 :: 16 word) \<Longrightarrow> length xs \<le> 20 \<Longrightarrow>
     unat (sum_list xs) = sum_list (map unat xs) \<and> sum_list (map unat xs) \<le> 1023 * length xs"
proof (induction xs)
  case Nil
  then show ?case by simp
next
  case (Cons x xs)
  then have ih: "unat (sum_list xs) = sum_list (map unat xs)"
    "sum_list (map unat xs) \<le> 1023 * length xs"
    by simp_all
  have x: "unat x \<le> 1023" using Cons.prems(1) by (simp add: word_le_nat_alt)
  have "unat x + unat (sum_list xs) < 2 ^ 16" using x ih Cons.prems(2) by simp
  then have "unat (x + sum_list xs) = unat x + unat (sum_list xs)"
    by (simp add: unat_add_lem [where 'a = 16, simplified])
  then show ?case using ih x by simp
qed

lemma sint_nonneg: "unat (x :: 16 word) < 32768 \<Longrightarrow> sint x = int (unat x)"
proof -
  assume a: "unat x < 32768"
  have u: "uint x < 32768" unfolding uint_nat using a by linarith
  have z: "0 \<le> uint x" by simp
  have b: "- 32768 \<le> uint x" using z by linarith
  have "signed_take_bit 15 (uint x) = uint x"
    using signed_take_bit_int_eq_self [of 15 "uint x"] b u by simp
  then show ?thesis by (simp add: sint_uint)
qed

lemma sum_sint_small:
  "\<forall>x\<in>set xs. x \<le> (1023 :: 16 word) \<Longrightarrow> sum_list (map sint xs) = int (sum_list (map unat xs))"
proof (induction xs)
  case Nil
  then show ?case by simp
next
  case (Cons x xs)
  have "unat x \<le> 1023" using Cons.prems by (simp add: word_le_nat_alt)
  then have "sint x = int (unat x)" by (intro sint_nonneg) simp
  then show ?case using Cons by simp
qed

lemma average_replicate: "v \<le> 1023 \<Longrightarrow> average (replicate 20 v) = v"
proof -
  assume v: "v \<le> 1023"
  have s: "sum_list (replicate 20 v) = 20 * v" by (simp add: sum_list_replicate)
  have "unat v \<le> 1023" using v by (simp add: word_le_nat_alt)
  then have "unat (20 * v) = 20 * unat v" by (simp add: unat_word_ariths)
  then have "unat (20 * v div 20) = unat v" by (simp add: unat_div)
  then show ?thesis by (simp add: average_def accumulate_sum s word_unat_eq_iff)
qed

subsection \<open>The circular buffer\<close>

lemma next_index:
  "unat (ix :: 8 word) < 20 \<Longrightarrow> unat (if ix + 1 > 19 then 0 else ix + 1) = (unat ix + 1) mod 20"
proof -
  assume a: "unat ix < 20"
  then have u: "unat (ix + 1) = unat ix + 1" by (simp add: unat_word_ariths)
  show ?thesis
  proof (cases "unat ix = 19")
    case True
    then show ?thesis using u by (simp add: word_less_nat_alt)
  next
    case False
    then have "unat ix + 1 < 20" using a by simp
    then show ?thesis using u by (simp add: word_less_nat_alt)
  qed
qed

lemma filter_insert_ok:
  assumes "filter_ok f"
  shows "\<exists>f'. filter_insert raw f = Some (average (as16URaw f'), f') \<and> filter_ok f' \<and>
           as16URaw f' = (as16URaw f)[unat (u8IdxURaw f) := raw] \<and>
           unat (u8IdxURaw f') = (unat (u8IdxURaw f) + 1) mod 20"
  using assms next_index [of "u8IdxURaw f"]
  by (simp add: filter_insert_def filter_ok_def Let_def)

lemma filter_insert_value:
  assumes "length (as16URaw f) = 20" and "unat (u8IdxURaw f) < 20"
  shows "filter_insert raw f =
           Some (sum_list ((as16URaw f)[unat (u8IdxURaw f) := raw]) div 20,
                 \<lparr>as16URaw = (as16URaw f)[unat (u8IdxURaw f) := raw],
                  u8IdxURaw = of_nat ((unat (u8IdxURaw f) + 1) mod 20)\<rparr>)"
proof -
  let ?ix = "if u8IdxURaw f + 1 > 19 then 0 else u8IdxURaw f + 1"
  have "unat ?ix = (unat (u8IdxURaw f) + 1) mod 20" using assms(2) by (rule next_index)
  moreover have "unat (of_nat ((unat (u8IdxURaw f) + 1) mod 20) :: 8 word) =
      (unat (u8IdxURaw f) + 1) mod 20"
  proof -
    have "(unat (u8IdxURaw f) + 1) mod 20 < 20" by simp
    then have "(unat (u8IdxURaw f) + 1) mod 20 < 2 ^ 8" by simp
    then show ?thesis by (simp add: unat_of_nat)
  qed
  ultimately have "?ix = of_nat ((unat (u8IdxURaw f) + 1) mod 20)"
    by (simp only: word_unat_eq_iff)
  then show ?thesis
    using assms by (simp add: filter_insert_def Let_def average_def accumulate_sum)
qed

lemma average_exact:
  assumes "length xs = 20" and "\<forall>x\<in>set xs. x \<le> (1023 :: 16 word)"
  shows "sint (average xs) = sum_list (map sint xs) div 20"
proof -
  from unat_sum_small [OF assms(2)] assms(1) have
    u: "unat (sum_list xs) = sum_list (map unat xs)" "sum_list (map unat xs) \<le> 20460"
    by simp_all
  have d: "unat (average xs) = sum_list (map unat xs) div 20"
    using u(1) by (simp add: average_def accumulate_sum unat_div)
  then have "unat (average xs) < 32768" using u(2) by simp
  then have "sint (average xs) = int (unat (average xs))" by (rule sint_nonneg)
  then show ?thesis using d sum_sint_small [OF assms(2)] by (simp add: zdiv_int)
qed

lemma feed_ok:
  "filter_ok f \<Longrightarrow> \<exists>as f'. feed raws f = Some (as, f') \<and> filter_ok f' \<and>
      length as = length raws \<and>
      (raws \<noteq> [] \<longrightarrow> last as = average (as16URaw f')) \<and>
      unat (u8IdxURaw f') = (unat (u8IdxURaw f) + length raws) mod 20"
proof (induction raws arbitrary: f)
  case Nil
  then show ?case by (simp add: filter_ok_def)
next
  case (Cons r rs)
  from filter_insert_ok [OF Cons.prems, of r] obtain f1 where
    f1: "filter_insert r f = Some (average (as16URaw f1), f1)" "filter_ok f1"
      "unat (u8IdxURaw f1) = (unat (u8IdxURaw f) + 1) mod 20" by blast
  from Cons.IH [OF f1(2)] obtain as f2 where
    f2: "feed rs f1 = Some (as, f2)" "filter_ok f2" "length as = length rs"
      "rs \<noteq> [] \<longrightarrow> last as = average (as16URaw f2)"
      "unat (u8IdxURaw f2) = (unat (u8IdxURaw f1) + length rs) mod 20" by blast
  have e: "rs = [] \<Longrightarrow> f2 = f1 \<and> as = []" using f2(1) by simp
  have ix: "unat (u8IdxURaw f2) = (unat (u8IdxURaw f) + length (r # rs)) mod 20"
    using f2(5) f1(3) by (simp add: mod_add_left_eq add.assoc)
  have la: "last (average (as16URaw f1) # as) = average (as16URaw f2)"
    using e f2(3,4) by (cases "rs = []") auto
  show ?case using f1(1) f2(1,2,3) ix la by simp
qed

lemma feed_keeps:
  "filter_ok f \<Longrightarrow> j < 20 \<Longrightarrow> as16URaw f ! j = v \<Longrightarrow>
     feed (replicate k v) f = Some (as, f') \<Longrightarrow> as16URaw f' ! j = v"
proof (induction k arbitrary: f as)
  case 0
  then show ?case by simp
next
  case (Suc k)
  from filter_insert_ok [OF Suc.prems(1), of v] obtain f1 where
    f1: "filter_insert v f = Some (average (as16URaw f1), f1)" "filter_ok f1"
      "as16URaw f1 = (as16URaw f)[unat (u8IdxURaw f) := v]" by blast
  from Suc.prems(4) f1(1) obtain as' where r: "feed (replicate k v) f1 = Some (as', f')"
    by (auto split: option.splits)
  have "as16URaw f1 ! j = v"
    using Suc.prems f1(3) by (simp add: nth_list_update filter_ok_def)
  from Suc.IH [OF f1(2) Suc.prems(2) this r] show ?case .
qed

lemma feed_covers:
  "filter_ok f \<Longrightarrow> feed (replicate k v) f = Some (as, f') \<Longrightarrow> m < k \<Longrightarrow>
     as16URaw f' ! ((unat (u8IdxURaw f) + m) mod 20) = v"
proof (induction k arbitrary: f as m)
  case 0
  then show ?case by simp
next
  case (Suc k)
  from filter_insert_ok [OF Suc.prems(1), of v] obtain f1 where
    f1: "filter_insert v f = Some (average (as16URaw f1), f1)" "filter_ok f1"
      "as16URaw f1 = (as16URaw f)[unat (u8IdxURaw f) := v]"
      "unat (u8IdxURaw f1) = (unat (u8IdxURaw f) + 1) mod 20" by blast
  from Suc.prems(2) f1(1) obtain as' where r: "feed (replicate k v) f1 = Some (as', f')"
    by (auto split: option.splits)
  show ?case
  proof (cases m)
    case 0
    have i: "unat (u8IdxURaw f) < 20" "length (as16URaw f) = 20"
      using Suc.prems(1) by (simp_all add: filter_ok_def)
    then have "as16URaw f1 ! unat (u8IdxURaw f) = v" using f1(3) by simp
    from feed_keeps [OF f1(2) i(1) this r] show ?thesis using 0 i by simp
  next
    case (Suc m')
    then have "m' < k" using Suc.prems(3) by simp
    from Suc.IH [OF f1(2) r this] show ?thesis
      using Suc f1(4) by (simp add: mod_add_left_eq add.assoc)
  qed
qed

lemma slot_reached: "i < 20 \<Longrightarrow> j < 20 \<Longrightarrow> (i + (j + 20 - i) mod 20) mod 20 = (j :: nat)"
proof (cases "i \<le> j")
  case True
  assume "i < 20" "j < 20"
  with True have "(j + 20 - i) mod 20 = j - i" by (simp add: mod_if)
  with True \<open>j < 20\<close> show ?thesis by simp
next
  case False
  assume "i < 20" "j < 20"
  with False have "(j + 20 - i) mod 20 = j + 20 - i" by simp
  with False \<open>i < 20\<close> \<open>j < 20\<close> show ?thesis by simp
qed

lemma feed_20_all:
  assumes "filter_ok f" and "feed (replicate 20 v) f = Some (as, f')" and "filter_ok f'"
  shows "as16URaw f' = replicate 20 v"
proof (rule nth_equalityI)
  show "length (as16URaw f') = length (replicate 20 v)"
    using assms(3) by (simp add: filter_ok_def)
next
  fix j assume "j < length (as16URaw f')"
  then have j: "j < 20" using assms(3) by (simp add: filter_ok_def)
  define i where "i = unat (u8IdxURaw f)"
  define m where "m = (j + 20 - i) mod 20"
  have i: "i < 20" using assms(1) by (simp add: filter_ok_def i_def)
  have "m < 20" by (simp add: m_def)
  moreover have "(i + m) mod 20 = j" using i j unfolding m_def by (rule slot_reached)
  ultimately have "as16URaw f' ! j = v"
    using feed_covers [OF assms(1,2), of m] by (simp add: i_def)
  then show "as16URaw f' ! j = replicate 20 v ! j" using j by simp
qed

section \<open>Startup\<close>

text \<open>
  C6. At startup the byte \<open>b\<close> at EEPROM address 0 is read. If \<open>b > 49\<close> the cell is
  overwritten with 0 (one write, of the value 0) and the attenuation in memory is 0;
  otherwise \<open>b\<close> becomes both the attenuation and the last stored value, and nothing is
  written. A stored 200 gives attenuation 0 and a write of 0.
\<close>

theorem setup_att_startup:
  "(b > 49 \<longrightarrow>
      u8Att (setup_att b w t) = 0 \<and> u8AttLast (setup_att b w t) = 0 \<and>
      eeprom0 (setup_att b w t) = 0 \<and> ee_writes (setup_att b w t) = w @ [0]) \<and>
   (\<not> b > 49 \<longrightarrow>
      u8Att (setup_att b w t) = b \<and> u8AttLast (setup_att b w t) = b \<and>
      eeprom0 (setup_att b w t) = b \<and> ee_writes (setup_att b w t) = w) \<and>
   u8Att (setup_att 200 [] t) = 0 \<and> eeprom0 (setup_att 200 [] t) = 0 \<and>
   ee_writes (setup_att 200 [] t) = [0]"
  by (simp add: setup_att_def)

theorem setup_att_startup_witness:
  "(200 :: 8 word) > 49 \<and> \<not> (17 :: 8 word) > 49 \<and>
   u8Att (setup_att 200 [] 5) = 0 \<and> ee_writes (setup_att 200 [] 5) = [0] \<and>
   u8Att (setup_att 17 [] 5) = 17 \<and> u8AttLast (setup_att 17 [] 5) = 17 \<and>
   ee_writes (setup_att 17 [] 5) = []"
  using setup_att_startup [of 200 "[]" 5] setup_att_startup [of 17 "[]" 5]
  by simp


section \<open>Attenuation range\<close>

text \<open>
  C5. Whatever byte the EEPROM holds at startup and whatever the sequence of passes
  (buttons, clock readings, soft resets included), the attenuation is at most 49 after
  every pass; it is an unsigned byte, so it is never below 0. The upper button at 49
  leaves 49 and the middle button at 0 leaves 0.
\<close>

theorem attenuation_clamped:
  "u8Att (run is (setup_att e w t)) \<le> 49 \<and> unat (u8Att (run is (setup_att e w t))) \<le> 49 \<and>
   att_switch 1 49 = Next 49 \<and> att_switch 2 0 = Next 0"
proof -
  have "att_inv (run is (setup_att e w t))" by (rule run_inv) (rule setup_att_inv)
  then have "u8Att (run is (setup_att e w t)) \<le> 49" by (simp add: att_inv_def)
  then show ?thesis by (simp add: att_switch_def word_le_nat_alt)
qed

theorem attenuation_clamped_witness:
  "u8Att (run [\<lparr>DI_PBU = False, DI_PBM = True, DI_PBL = True,
                 millis_cur = 2100, millis_rst = 2101\<rparr>,
               \<lparr>DI_PBU = False, DI_PBM = True, DI_PBL = True,
                 millis_cur = 2400, millis_rst = 2401\<rparr>] (setup_att 48 [] 0)) \<le> 49 \<and>
   u8Att (run [\<lparr>DI_PBU = False, DI_PBM = True, DI_PBL = True,
                 millis_cur = 2100, millis_rst = 2101\<rparr>,
               \<lparr>DI_PBU = False, DI_PBM = True, DI_PBL = True,
                 millis_cur = 2400, millis_rst = 2401\<rparr>] (setup_att 48 [] 0)) = 49 \<and>
   u8Att (run [\<lparr>DI_PBU = True, DI_PBM = False, DI_PBL = True,
                 millis_cur = 2100, millis_rst = 2101\<rparr>] (setup_att 200 [] 0)) = 0"
  using
    attenuation_clamped [of "[\<lparr>DI_PBU = False, DI_PBM = True, DI_PBL = True,
                                 millis_cur = 2100, millis_rst = 2101\<rparr>,
                               \<lparr>DI_PBU = False, DI_PBM = True, DI_PBL = True,
                                 millis_cur = 2400, millis_rst = 2401\<rparr>]" 48 "[]" 0]
  by (simp add: window_open_def pushButtons_def setup_att_def pass_def loop_att_def
      att_switch_def)

section \<open>The 200 ms timer\<close>

text \<open>
  C4, as the code has it. \<open>u32MillisLast\<close> is refreshed exactly in the passes that find
  more than 200 ms elapsed (by the wrapped 32-bit difference) and at least one button
  pressed: it then takes a fresh reading of \<open>millis()\<close>, whatever the mask and whether or
  not the attenuation changed (for the three-button mask the refresh is the one
  \<open>setup()\<close> does after the restart). When the window test fails, or when it passes
  with all buttons released, the pass leaves the timer, and the whole attenuation
  state, as it was.
\<close>

theorem timer_refresh_rule:
  "(window_open (millis_cur i) (u32MillisLast s) \<and> pushButtons i \<noteq> 0 \<longrightarrow>
      u32MillisLast (pass i s) = millis_rst i) \<and>
   (\<not> window_open (millis_cur i) (u32MillisLast s) \<or> pushButtons i = 0 \<longrightarrow>
      pass i s = s)"
  using pass_timer [of i s] pass_closed [of i s] pass_idle [of i s] by blast

theorem timer_refresh_rule_witness:
  "u32MillisLast (pass \<lparr>DI_PBU = False, DI_PBM = True, DI_PBL = True,
                         millis_cur = 2100, millis_rst = 2101\<rparr> (setup_att 5 [] 0)) = 2101 \<and>
   u32MillisLast (pass \<lparr>DI_PBU = False, DI_PBM = False, DI_PBL = True,
                         millis_cur = 2100, millis_rst = 2101\<rparr> (setup_att 5 [] 0)) = 2101 \<and>
   pass \<lparr>DI_PBU = False, DI_PBM = True, DI_PBL = True,
         millis_cur = 150, millis_rst = 151\<rparr> (setup_att 5 [] 0) = setup_att 5 [] 0 \<and>
   u32MillisLast (pass \<lparr>DI_PBU = False, DI_PBM = False, DI_PBL = False,
                         millis_cur = 2100, millis_rst = 4101\<rparr> (setup_att 5 [] 0)) = 4101"
  using
    timer_refresh_rule [of "\<lparr>DI_PBU = False, DI_PBM = False, DI_PBL = False,
                             millis_cur = 2100, millis_rst = 4101\<rparr>" "setup_att 5 [] 0"]
    timer_refresh_rule [of "\<lparr>DI_PBU = False, DI_PBM = True, DI_PBL = True,
                             millis_cur = 2100, millis_rst = 2101\<rparr>" "setup_att 5 [] 0"]
    timer_refresh_rule [of "\<lparr>DI_PBU = False, DI_PBM = False, DI_PBL = True,
                             millis_cur = 2100, millis_rst = 2101\<rparr>" "setup_att 5 [] 0"]
    timer_refresh_rule [of "\<lparr>DI_PBU = False, DI_PBM = True, DI_PBL = True,
                             millis_cur = 150, millis_rst = 151\<rparr>" "setup_att 5 [] 0"]
  by (simp add: window_open_def pushButtons_def setup_att_def)

text \<open>
  C4 as stated fails with all buttons released: 2100 ms after \<open>setup()\<close> set the timer
  to 0 the window test passes, and the pass leaves the timer at 0 instead of moving it
  to the current time.
\<close>

theorem timer_idle_counterexample:
  "window_open 2100 (u32MillisLast (setup_att 5 [] 0)) \<and>
   pushButtons \<lparr>DI_PBU = True, DI_PBM = True, DI_PBL = True,
                millis_cur = 2100, millis_rst = 2101\<rparr> = 0 \<and>
   loop_att \<lparr>DI_PBU = True, DI_PBM = True, DI_PBL = True,
             millis_cur = 2100, millis_rst = 2101\<rparr> (setup_att 5 [] 0) = Next (setup_att 5 [] 0) \<and>
   u32MillisLast (setup_att 5 [] 0) = 0"
  by (simp add: window_open_def pushButtons_def setup_att_def loop_att_def)

section \<open>Writes to the EEPROM\<close>

text \<open>
  C3, as the code has it. In every state \<open>s\<close> reached from \<open>setup()\<close>:
  \<^item> a pass writes the EEPROM exactly when it changes the attenuation, and it writes
    the new value once;
  \<^item> a change needs the window test to pass, that is more than 200 ms (by the wrapped
    32-bit difference) since \<open>u32MillisLast\<close> was refreshed, and a button pressed;
  \<^item> \<open>u32MillisLast\<close> is set by \<open>setup()\<close> and refreshed by the passes that find the
    window test passed and a button pressed; a pass with all buttons released leaves
    the whole state, the timer included, as it was, also when the window test passes,
    so that a pass with only the upper button pressed that follows it is judged
    against the old timer and, when more than 200 ms have elapsed since then, stores
    its increment however short the time since the idle pass;
  \<^item> passes that all fail the window test write nothing, whatever is pressed;
  \<^item> a burst that starts with a pass with only the upper button pressed and the window
    test passed, followed by passes inside the window that this pass opens, stores one
    increment when the attenuation was below 49 and nothing at 49;
  \<^item> after a pass that changed the attenuation, the passes inside the window it opens
    add no further write.
\<close>

theorem eeprom_write_rule:
  assumes "s = run js (setup_att e w t)"
  shows
    "ee_writes (pass i s) =
       (if u8Att (pass i s) \<noteq> u8Att s then ee_writes s @ [u8Att (pass i s)] else ee_writes s) \<and>
     (u8Att (pass i s) \<noteq> u8Att s \<longrightarrow>
        window_open (millis_cur i) (u32MillisLast s) \<and> pushButtons i \<noteq> 0 \<and>
        eeprom0 (pass i s) = u8Att (pass i s)) \<and>
     ((\<forall>j\<in>set ks. \<not> window_open (millis_cur j) (u32MillisLast s)) \<longrightarrow> run ks s = s) \<and>
     (pushButtons i = 1 \<and> window_open (millis_cur i) (u32MillisLast s) \<and>
      (\<forall>j\<in>set ks. \<not> window_open (millis_cur j) (millis_rst i)) \<longrightarrow>
        ee_writes (run (i # ks) s) =
          (if u8Att s < 49 then ee_writes s @ [u8Att s + 1] else ee_writes s)) \<and>
     (u8Att (pass i s) \<noteq> u8Att s \<and>
      (\<forall>j\<in>set ks. \<not> window_open (millis_cur j) (millis_rst i)) \<longrightarrow>
        ee_writes (run (i # ks) s) = ee_writes s @ [u8Att (pass i s)]) \<and>
     u32MillisLast (setup_att e w t) = t \<and>
     (window_open (millis_cur i) (u32MillisLast s) \<and> pushButtons i \<noteq> 0 \<longrightarrow>
        u32MillisLast (pass i s) = millis_rst i) \<and>
     (pushButtons i = 0 \<longrightarrow>
        pass i s = s \<and> u32MillisLast (pass i s) = u32MillisLast s) \<and>
     (pushButtons i = 0 \<and> pushButtons k = 1 \<and>
      window_open (millis_cur k) (u32MillisLast s) \<longrightarrow>
        ee_writes (run [i, k] s) =
          (if u8Att s < 49 then ee_writes s @ [u8Att s + 1] else ee_writes s))"
proof -
  have inv: "att_inv s" unfolding assms by (rule run_inv) (rule setup_att_inv)
  have A: "ee_writes (pass i s) =
       (if u8Att (pass i s) \<noteq> u8Att s then ee_writes s @ [u8Att (pass i s)] else ee_writes s)"
    by (rule pass_writes [OF inv])
  have B: "u8Att (pass i s) \<noteq> u8Att s \<longrightarrow>
        window_open (millis_cur i) (u32MillisLast s) \<and> pushButtons i \<noteq> 0 \<and>
        eeprom0 (pass i s) = u8Att (pass i s)"
    using pass_changed [OF _ inv, of i] by blast
  have C: "(\<forall>j\<in>set ks. \<not> window_open (millis_cur j) (u32MillisLast s)) \<longrightarrow> run ks s = s"
    using run_closed [of ks s] by blast
  have rest: "run (i # ks) s = pass i s"
    if o: "window_open (millis_cur i) (u32MillisLast s)" and b: "pushButtons i \<noteq> 0"
      and c: "\<forall>j\<in>set ks. \<not> window_open (millis_cur j) (millis_rst i)"
  proof -
    have "u32MillisLast (pass i s) = millis_rst i" using o b by (rule pass_timer)
    then have "run ks (pass i s) = pass i s" using c run_closed [of ks "pass i s"] by simp
    then show ?thesis by simp
  qed
  have up: "ee_writes (pass p s) =
          (if u8Att s < 49 then ee_writes s @ [u8Att s + 1] else ee_writes s)"
    if b: "pushButtons p = 1" and o: "window_open (millis_cur p) (u32MillisLast s)" for p
  proof -
    have w: "ee_writes (pass p s) =
       (if u8Att (pass p s) \<noteq> u8Att s then ee_writes s @ [u8Att (pass p s)] else ee_writes s)"
      by (rule pass_writes [OF inv])
    have u: "u8Att (pass p s) = (if u8Att s + 1 > 49 then 49 else u8Att s + 1)"
      using b o by (rule pass_upper)
    show ?thesis
    proof (cases "u8Att s < 49")
      case True
      then show ?thesis using w u inc_below_49 [OF True] by simp
    next
      case False
      have "u8Att s \<le> 49" using inv by (simp add: att_inv_def)
      then have "u8Att s = 49" using False by (rule inc_at_49)
      then show ?thesis using w u by simp
    qed
  qed
  have D: "pushButtons i = 1 \<and> window_open (millis_cur i) (u32MillisLast s) \<and>
      (\<forall>j\<in>set ks. \<not> window_open (millis_cur j) (millis_rst i)) \<longrightarrow>
        ee_writes (run (i # ks) s) =
          (if u8Att s < 49 then ee_writes s @ [u8Att s + 1] else ee_writes s)"
  proof (intro impI, elim conjE)
    assume b: "pushButtons i = 1" and o: "window_open (millis_cur i) (u32MillisLast s)"
      and c: "\<forall>j\<in>set ks. \<not> window_open (millis_cur j) (millis_rst i)"
    have r: "run (i # ks) s = pass i s" using o c b by (intro rest) simp_all
    show "ee_writes (run (i # ks) s) =
          (if u8Att s < 49 then ee_writes s @ [u8Att s + 1] else ee_writes s)"
      unfolding r using b o by (rule up)
  qed
  have E: "u8Att (pass i s) \<noteq> u8Att s \<and>
      (\<forall>j\<in>set ks. \<not> window_open (millis_cur j) (millis_rst i)) \<longrightarrow>
        ee_writes (run (i # ks) s) = ee_writes s @ [u8Att (pass i s)]"
  proof (intro impI, elim conjE)
    assume ch: "u8Att (pass i s) \<noteq> u8Att s"
      and c: "\<forall>j\<in>set ks. \<not> window_open (millis_cur j) (millis_rst i)"
    from B ch have "window_open (millis_cur i) (u32MillisLast s)" "pushButtons i \<noteq> 0"
      by simp_all
    then have "run (i # ks) s = pass i s" using c by (rule rest)
    then show "ee_writes (run (i # ks) s) = ee_writes s @ [u8Att (pass i s)]"
      using A ch by simp
  qed
  have F: "u32MillisLast (setup_att e w t) = t" by (simp add: setup_att_def)
  have G: "window_open (millis_cur i) (u32MillisLast s) \<and> pushButtons i \<noteq> 0 \<longrightarrow>
        u32MillisLast (pass i s) = millis_rst i"
    using pass_timer [of i s] by blast
  have H: "pushButtons i = 0 \<longrightarrow> pass i s = s \<and> u32MillisLast (pass i s) = u32MillisLast s"
    using pass_idle [of i s] by simp
  have I: "pushButtons i = 0 \<and> pushButtons k = 1 \<and>
      window_open (millis_cur k) (u32MillisLast s) \<longrightarrow>
        ee_writes (run [i, k] s) =
          (if u8Att s < 49 then ee_writes s @ [u8Att s + 1] else ee_writes s)"
  proof (intro impI, elim conjE)
    assume z: "pushButtons i = 0" and b: "pushButtons k = 1"
      and o: "window_open (millis_cur k) (u32MillisLast s)"
    have r: "run [i, k] s = pass k s" using pass_idle [OF z, of s] by simp
    show "ee_writes (run [i, k] s) =
          (if u8Att s < 49 then ee_writes s @ [u8Att s + 1] else ee_writes s)"
      unfolding r using b o by (rule up)
  qed
  show ?thesis using A B C D E F G H I by blast
qed

theorem eeprom_write_rule_witness:
  "setup_att 5 [] 0 = run [] (setup_att 5 [] 0) \<and>
   ee_writes (pass \<lparr>DI_PBU = False, DI_PBM = True, DI_PBL = True,
                     millis_cur = 2100, millis_rst = 2101\<rparr> (setup_att 5 [] 0)) = [6] \<and>
   ee_writes (run [\<lparr>DI_PBU = False, DI_PBM = True, DI_PBL = True,
                     millis_cur = 2100, millis_rst = 2101\<rparr>,
                   \<lparr>DI_PBU = False, DI_PBM = True, DI_PBL = True,
                     millis_cur = 2110, millis_rst = 2111\<rparr>,
                   \<lparr>DI_PBU = False, DI_PBM = True, DI_PBL = True,
                     millis_cur = 2301, millis_rst = 2302\<rparr>] (setup_att 5 [] 0)) = [6] \<and>
   run [\<lparr>DI_PBU = False, DI_PBM = True, DI_PBL = True,
         millis_cur = 2150, millis_rst = 2151\<rparr>]
     (run [\<lparr>DI_PBU = False, DI_PBM = True, DI_PBL = True,
            millis_cur = 2100, millis_rst = 2101\<rparr>] (setup_att 5 [] 0)) =
   run [\<lparr>DI_PBU = False, DI_PBM = True, DI_PBL = True,
         millis_cur = 2100, millis_rst = 2101\<rparr>] (setup_att 5 [] 0) \<and>
   pass \<lparr>DI_PBU = True, DI_PBM = True, DI_PBL = True,
         millis_cur = 2100, millis_rst = 2101\<rparr> (setup_att 5 [] 0) = setup_att 5 [] 0 \<and>
   u32MillisLast (pass \<lparr>DI_PBU = True, DI_PBM = True, DI_PBL = True,
                         millis_cur = 2100, millis_rst = 2101\<rparr> (setup_att 5 [] 0)) = 0 \<and>
   u32MillisLast (pass \<lparr>DI_PBU = False, DI_PBM = True, DI_PBL = True,
                         millis_cur = 2100, millis_rst = 2101\<rparr> (setup_att 5 [] 0)) = 2101 \<and>
   ee_writes (run [\<lparr>DI_PBU = True, DI_PBM = True, DI_PBL = True,
                     millis_cur = 2100, millis_rst = 2101\<rparr>,
                   \<lparr>DI_PBU = False, DI_PBM = True, DI_PBL = True,
                     millis_cur = 2110, millis_rst = 2111\<rparr>] (setup_att 5 [] 0)) = [6]"
  using
    eeprom_write_rule [where s = "setup_att 5 [] 0" and js = "[]" and e = 5 and w = "[]"
      and t = 0
      and i = "\<lparr>DI_PBU = False, DI_PBM = True, DI_PBL = True,
                 millis_cur = 2100, millis_rst = 2101\<rparr>"
      and ks = "[\<lparr>DI_PBU = False, DI_PBM = True, DI_PBL = True,
                   millis_cur = 2110, millis_rst = 2111\<rparr>,
                 \<lparr>DI_PBU = False, DI_PBM = True, DI_PBL = True,
                   millis_cur = 2301, millis_rst = 2302\<rparr>]"]
    eeprom_write_rule [where js = "[\<lparr>DI_PBU = False, DI_PBM = True, DI_PBL = True,
                                     millis_cur = 2100, millis_rst = 2101\<rparr>]"
      and s = "run [\<lparr>DI_PBU = False, DI_PBM = True, DI_PBL = True,
                      millis_cur = 2100, millis_rst = 2101\<rparr>] (setup_att 5 [] 0)"
      and e = 5 and w = "[]" and t = 0
      and i = "\<lparr>DI_PBU = True, DI_PBM = True, DI_PBL = True,
                 millis_cur = 2140, millis_rst = 2141\<rparr>"
      and ks = "[\<lparr>DI_PBU = False, DI_PBM = True, DI_PBL = True,
                   millis_cur = 2150, millis_rst = 2151\<rparr>]"]
    eeprom_write_rule [where s = "setup_att 5 [] 0" and js = "[]" and e = 5 and w = "[]"
      and t = 0
      and i = "\<lparr>DI_PBU = True, DI_PBM = True, DI_PBL = True,
                 millis_cur = 2100, millis_rst = 2101\<rparr>"
      and k = "\<lparr>DI_PBU = False, DI_PBM = True, DI_PBL = True,
                 millis_cur = 2110, millis_rst = 2111\<rparr>"]
  by (simp add: window_open_def pushButtons_def setup_att_def pass_def loop_att_def
      att_switch_def)

text \<open>
  C3 as stated fails on two traces that start 2100 ms after \<open>setup()\<close> set the timer
  to 0.
  \<^item> With all buttons released the pass at 2100 ms passes the window test; the pass at
    2110 ms with the upper button pressed changes 5 to 6 and writes it, 10 ms after
    that evaluation.
  \<^item> At attenuation 49 a burst of three upper-button presses stores no increment.
\<close>

theorem eeprom_write_counterexample:
  "window_open 2100 (u32MillisLast (setup_att 5 [] 0)) \<and>
   (2110 :: 32 word) - 2100 < 200 \<and>
   ee_writes (run [\<lparr>DI_PBU = True, DI_PBM = True, DI_PBL = True,
                     millis_cur = 2100, millis_rst = 2101\<rparr>,
                   \<lparr>DI_PBU = False, DI_PBM = True, DI_PBL = True,
                     millis_cur = 2110, millis_rst = 2111\<rparr>] (setup_att 5 [] 0)) = [6] \<and>
   ee_writes (run [\<lparr>DI_PBU = False, DI_PBM = True, DI_PBL = True,
                     millis_cur = 2100, millis_rst = 2101\<rparr>,
                   \<lparr>DI_PBU = False, DI_PBM = True, DI_PBL = True,
                     millis_cur = 2110, millis_rst = 2111\<rparr>,
                   \<lparr>DI_PBU = False, DI_PBM = True, DI_PBL = True,
                     millis_cur = 2120, millis_rst = 2121\<rparr>] (setup_att 49 [] 0)) = []"
  by (simp add: window_open_def pushButtons_def setup_att_def pass_def loop_att_def
      att_switch_def)

section \<open>Elapsed time across a wrap of the millisecond counter\<close>

text \<open>
  C10, as the code has it. The window test compares the difference of the two 32-bit
  counters, taken modulo \<open>2 ^ 32\<close>, with 200. For two instants \<open>T0 \<le> T1\<close>
  (milliseconds since power-up, unbounded), whose counter readings are \<open>T0\<close> and \<open>T1\<close>
  modulo \<open>2 ^ 32\<close>, that difference is the elapsed time \<open>T1 - T0\<close> modulo \<open>2 ^ 32\<close>.
  When the instants are less than \<open>2 ^ 32\<close> ms apart it is the true elapsed time, also
  when the counter wrapped between the two readings, and the test is passed exactly
  when more than 200 ms have elapsed.
\<close>

theorem window_open_wraparound:
  "window_open cur lst = (200 < (uint cur - uint lst) mod 2 ^ 32) \<and>
   (T0 \<le> T1 \<and> T1 - T0 < 2 ^ 32 \<longrightarrow>
      unat ((of_nat T1 :: 32 word) - of_nat T0) = T1 - T0 \<and>
      window_open (of_nat T1) (of_nat T0) = (200 < T1 - T0)) \<and>
   (T0 \<le> T1 \<longrightarrow>
      unat ((of_nat T1 :: 32 word) - of_nat T0) = (T1 - T0) mod 2 ^ 32 \<and>
      window_open (of_nat T1) (of_nat T0) = (200 < (T1 - T0) mod 2 ^ 32))"
proof -
  have "window_open cur lst = (200 < uint (cur - lst))"
    by (simp add: window_open_def word_less_def)
  then have a: "window_open cur lst = (200 < (uint cur - uint lst) mod 2 ^ 32)"
    by (simp add: uint_word_ariths)
  have b: "unat ((of_nat T1 :: 32 word) - of_nat T0) = T1 - T0 \<and>
      window_open (of_nat T1) (of_nat T0) = (200 < T1 - T0)"
    if "T0 \<le> T1" "T1 - T0 < 2 ^ 32"
    using unat_diff_of_nat [OF that] by (simp add: window_open_def word_less_nat_alt)
  have c: "unat ((of_nat T1 :: 32 word) - of_nat T0) = (T1 - T0) mod 2 ^ 32 \<and>
      window_open (of_nat T1) (of_nat T0) = (200 < (T1 - T0) mod 2 ^ 32)"
    if le: "T0 \<le> T1"
  proof -
    have e: "(of_nat T1 :: 32 word) - of_nat T0 = of_nat (T1 - T0)" using le by simp
    have "unat (of_nat (T1 - T0) :: 32 word) = (T1 - T0) mod 2 ^ 32"
      by (simp add: unat_of_nat)
    then have u: "unat ((of_nat T1 :: 32 word) - of_nat T0) = (T1 - T0) mod 2 ^ 32"
      by (simp only: e)
    have "window_open (of_nat T1) (of_nat T0) =
        (200 < unat ((of_nat T1 :: 32 word) - of_nat T0))"
      by (simp add: window_open_def word_less_nat_alt)
    then show ?thesis using u by simp
  qed
  show ?thesis using a b c by blast
qed

theorem window_open_wraparound_witness:
  "(4294967196 :: nat) \<le> 4294967446 \<and> (4294967446 :: nat) - 4294967196 < 2 ^ 32 \<and>
   (of_nat 4294967196 :: 32 word) = 4294967196 \<and> (of_nat 4294967446 :: 32 word) = 150 \<and>
   unat ((150 :: 32 word) - 4294967196) = 250 \<and> window_open 150 4294967196 \<and>
   (4294967396 :: nat) mod 2 ^ 32 = 100 \<and>
   unat ((of_nat 4294967396 :: 32 word) - of_nat 0) = 100"
  using window_open_wraparound [of 150 4294967196 4294967196 4294967446]
    window_open_wraparound [of 150 4294967196 0 4294967396]
  by simp

text \<open>
  C10 as stated fails for two instants \<open>2 ^ 32 + 100\<close> ms apart: more than 200 ms
  have elapsed, the wrapped difference is 100 and the window test fails. The gap can
  occur, since passes with all buttons released never refresh the timer: the upper
  button pressed \<open>2 ^ 32 + 100\<close> ms after \<open>setup()\<close> set the timer is ignored.
\<close>

theorem window_open_long_gap_counterexample:
  "(200 :: nat) < 4294967396 - 0 \<and>
   \<not> window_open (of_nat 4294967396) (of_nat 0) \<and>
   pass \<lparr>DI_PBU = False, DI_PBM = True, DI_PBL = True,
         millis_cur = of_nat 4294967396, millis_rst = of_nat 4294967397\<rparr>
     (setup_att 5 [] (of_nat 0)) = setup_att 5 [] (of_nat 0)"
  by (simp add: window_open_def pass_def loop_att_def setup_att_def)

section \<open>The rolling average\<close>

text \<open>
  C7. One insertion into a filter whose array has its 20 slots and whose write index
  lies inside it stores the sample at the write index, moves the index to the next
  slot with a wrap from 19 to 0, and returns the 16-bit sum of the 20 slots of the
  updated array divided by 20; when the slots of the updated array are samples from 0
  to 1023 the value returned is the true sum of the slots divided by 20 with the
  remainder dropped. Successive passes insert the samples in order, each into the
  filter left by the one before. From any such filter, inserting the same sample \<open>v\<close>
  from 0 to 1023 twenty times succeeds every time and the twentieth insertion returns
  exactly \<open>v\<close>: every slot then holds \<open>v\<close> and the write index is back where it
  started.
\<close>

theorem filter_converges:
  "(length (as16URaw f) = 20 \<and> unat (u8IdxURaw f) < 20 \<longrightarrow>
      filter_insert raw f =
        Some (sum_list ((as16URaw f)[unat (u8IdxURaw f) := raw]) div 20,
              \<lparr>as16URaw = (as16URaw f)[unat (u8IdxURaw f) := raw],
               u8IdxURaw = of_nat ((unat (u8IdxURaw f) + 1) mod 20)\<rparr>)) \<and>
   (length (as16URaw f) = 20 \<and> unat (u8IdxURaw f) < 20 \<and>
    (\<forall>x\<in>set ((as16URaw f)[unat (u8IdxURaw f) := raw]). x \<le> 1023) \<longrightarrow>
      map_option (sint \<circ> fst) (filter_insert raw f) =
        Some (sum_list (map sint ((as16URaw f)[unat (u8IdxURaw f) := raw])) div 20)) \<and>
   feed [] f = Some ([], f) \<and>
   (filter_insert raw f = Some (a, g) \<longrightarrow>
      feed (raw # raws) f = map_option (\<lambda>(as, h). (a # as, h)) (feed raws g)) \<and>
   (filter_insert raw f = None \<longrightarrow> feed (raw # raws) f = None) \<and>
   (length (as16URaw f) = 20 \<and> unat (u8IdxURaw f) < 20 \<and> v \<le> 1023 \<longrightarrow>
      (\<exists>as f'. feed (replicate 20 v) f = Some (as, f') \<and> length as = 20 \<and> last as = v \<and>
           as16URaw f' = replicate 20 v \<and> u8IdxURaw f' = u8IdxURaw f))"
proof -
  have one: "filter_insert raw f =
        Some (sum_list ((as16URaw f)[unat (u8IdxURaw f) := raw]) div 20,
              \<lparr>as16URaw = (as16URaw f)[unat (u8IdxURaw f) := raw],
               u8IdxURaw = of_nat ((unat (u8IdxURaw f) + 1) mod 20)\<rparr>)"
    if "length (as16URaw f) = 20" "unat (u8IdxURaw f) < 20"
    using that by (rule filter_insert_value)
  have exact: "map_option (sint \<circ> fst) (filter_insert raw f) =
        Some (sum_list (map sint ((as16URaw f)[unat (u8IdxURaw f) := raw])) div 20)"
    if l: "length (as16URaw f) = 20" and i: "unat (u8IdxURaw f) < 20"
      and b: "\<forall>x\<in>set ((as16URaw f)[unat (u8IdxURaw f) := raw]). x \<le> 1023"
  proof -
    have "length ((as16URaw f)[unat (u8IdxURaw f) := raw]) = 20" using l by simp
    from average_exact [OF this b] show ?thesis
      using l i by (simp add: filter_insert_def Let_def)
  qed
  have nil: "feed [] f = Some ([], f)" by simp
  have cons: "feed (raw # raws) f = map_option (\<lambda>(as, h). (a # as, h)) (feed raws g)"
    if "filter_insert raw f = Some (a, g)"
    using that by (simp split: option.splits)
  have none: "feed (raw # raws) f = None" if "filter_insert raw f = None"
    using that by simp
  have conv: "\<exists>as f'. feed (replicate 20 v) f = Some (as, f') \<and> length as = 20 \<and>
      last as = v \<and> as16URaw f' = replicate 20 v \<and> u8IdxURaw f' = u8IdxURaw f"
    if l: "length (as16URaw f) = 20" and i: "unat (u8IdxURaw f) < 20" and v: "v \<le> 1023"
  proof -
    have ok: "filter_ok f" using l i by (simp add: filter_ok_def)
    from feed_ok [OF ok, of "replicate 20 v"] obtain as f' where
      r: "feed (replicate 20 v) f = Some (as, f')" "filter_ok f'" "length as = 20"
        "last as = average (as16URaw f')"
        "unat (u8IdxURaw f') = (unat (u8IdxURaw f) + 20) mod 20" by auto
    have ix: "u8IdxURaw f' = u8IdxURaw f" using r(5) i by (simp add: word_unat_eq_iff)
    have b: "as16URaw f' = replicate 20 v" by (rule feed_20_all [OF ok r(1,2)])
    show ?thesis using r(1,3,4) b ix average_replicate [OF v] by simp
  qed
  show ?thesis using one exact nil cons none conv by blast
qed

theorem filter_converges_witness:
  "filter_insert 100 \<lparr>as16URaw = [0, 1023, 5, 7, 9, 11, 13, 15, 17, 19,
                                   21, 23, 25, 27, 29, 31, 33, 35, 37, 39],
                      u8IdxURaw = 19\<rparr> =
     Some (74, \<lparr>as16URaw = [0, 1023, 5, 7, 9, 11, 13, 15, 17, 19,
                             21, 23, 25, 27, 29, 31, 33, 35, 37, 100],
                u8IdxURaw = 0\<rparr>) \<and>
   sum_list (map sint [0, 1023, 5, 7, 9, 11, 13, 15, 17, 19,
                       21, 23, 25, 27, 29, 31, 33, 35, 37, 100 :: 16 word]) = 1480 \<and>
   feed [100] \<lparr>as16URaw = [0, 1023, 5, 7, 9, 11, 13, 15, 17, 19,
                            21, 23, 25, 27, 29, 31, 33, 35, 37, 39],
               u8IdxURaw = 19\<rparr> =
     Some ([74], \<lparr>as16URaw = [0, 1023, 5, 7, 9, 11, 13, 15, 17, 19,
                               21, 23, 25, 27, 29, 31, 33, 35, 37, 100],
                  u8IdxURaw = 0\<rparr>) \<and>
   feed [5] \<lparr>as16URaw = [], u8IdxURaw = 0\<rparr> = None \<and>
   (400 :: 16 word) \<le> 1023 \<and>
   map_option (last \<circ> fst)
     (feed (replicate 20 400) \<lparr>as16URaw = [0, 1023, 5, 7, 9, 11, 13, 15, 17, 19,
                                             21, 23, 25, 27, 29, 31, 33, 35, 37, 39],
                                u8IdxURaw = 7\<rparr>) = Some 400"
  using
    filter_converges [of "\<lparr>as16URaw = [0, 1023, 5, 7, 9, 11, 13, 15, 17, 19,
                                       21, 23, 25, 27, 29, 31, 33, 35, 37, 39],
                          u8IdxURaw = 19\<rparr>" 100 74
      "\<lparr>as16URaw = [0, 1023, 5, 7, 9, 11, 13, 15, 17, 19,
                     21, 23, 25, 27, 29, 31, 33, 35, 37, 100], u8IdxURaw = 0\<rparr>" "[]" 400]
    filter_converges [of "\<lparr>as16URaw = [], u8IdxURaw = 0\<rparr>" 5 0
      "\<lparr>as16URaw = [], u8IdxURaw = 0\<rparr>" "[]" 400]
    filter_converges [of "\<lparr>as16URaw = [0, 1023, 5, 7, 9, 11, 13, 15, 17, 19,
                                       21, 23, 25, 27, 29, 31, 33, 35, 37, 39],
                          u8IdxURaw = 7\<rparr>" 100 74
      "\<lparr>as16URaw = [0, 1023, 5, 7, 9, 11, 13, 15, 17, 19,
                     21, 23, 25, 27, 29, 31, 33, 35, 37, 100], u8IdxURaw = 0\<rparr>" "[]" 400]
  by (auto simp: filter_insert_def average_def)

text \<open>
  C9. For an array of 20 samples from 0 to 1023, the 16-bit sum of lines 248-252
  never leaves the \<open>int16_t\<close> range: after each of the 20 additions the signed value of
  \<open>s16Tmp\<close> is the true sum of the slots added so far, at most 20460. The value of line
  254 is the true sum divided by 20 with the remainder dropped. The same code runs
  on the power and on the temperature array.
\<close>

theorem accumulator_no_overflow:
  assumes "length xs = 20" and "\<forall>x\<in>set xs. x \<le> 1023"
  shows "(\<forall>k\<le>20. sint (accumulate (take k xs) 0) = sum_list (map sint (take k xs)) \<and>
                  0 \<le> sum_list (map sint (take k xs)) \<and>
                  sum_list (map sint (take k xs)) \<le> 20460) \<and>
         sint (average xs) = sum_list (map sint xs) div 20"
proof -
  have part: "sint (accumulate ys 0) = sum_list (map sint ys) \<and>
              0 \<le> sum_list (map sint ys) \<and> sum_list (map sint ys) \<le> 20460 \<and>
              unat (accumulate ys 0) = sum_list (map unat ys)"
    if s: "\<forall>x\<in>set ys. x \<le> 1023" and l: "length ys \<le> 20" for ys :: "16 word list"
  proof -
    from unat_sum_small [OF s l] have
      u: "unat (sum_list ys) = sum_list (map unat ys)"
        "sum_list (map unat ys) \<le> 1023 * length ys" by simp_all
    have bound: "sum_list (map unat ys) \<le> 20460" using u(2) l by simp
    then have "unat (sum_list ys) < 32768" using u(1) by simp
    then have "sint (sum_list ys) = int (unat (sum_list ys))" by (rule sint_nonneg)
    then show ?thesis using u(1) bound sum_sint_small [OF s] by (simp add: accumulate_sum)
  qed
  have pre: "sint (accumulate (take k xs) 0) = sum_list (map sint (take k xs)) \<and>
             0 \<le> sum_list (map sint (take k xs)) \<and>
             sum_list (map sint (take k xs)) \<le> 20460" if "k \<le> 20" for k
  proof -
    have "\<forall>x\<in>set (take k xs). x \<le> 1023" using assms(2) by (meson in_set_takeD)
    moreover have "length (take k xs) \<le> 20" using assms(1) by simp
    ultimately show ?thesis using part by blast
  qed
  from part [OF assms(2)] assms(1) have
    w: "unat (accumulate xs 0) = sum_list (map unat xs)"
      "sum_list (map sint xs) \<le> 20460" by simp_all
  have d: "unat (average xs) = sum_list (map unat xs) div 20"
    using w(1) by (simp add: average_def unat_div)
  have "sum_list (map unat xs) \<le> 20460" using w(2) sum_sint_small [OF assms(2)] by simp
  then have "unat (average xs) < 32768" using d by simp
  then have "sint (average xs) = int (unat (average xs))" by (rule sint_nonneg)
  then have "sint (average xs) = sum_list (map sint xs) div 20"
    using d sum_sint_small [OF assms(2)] by (simp add: zdiv_int)
  then show ?thesis using pre by blast
qed

theorem accumulator_no_overflow_witness:
  "length (replicate 20 (1023 :: 16 word)) = 20 \<and>
   set (replicate 20 (1023 :: 16 word)) = {1023} \<and> (1023 :: 16 word) \<le> 1023 \<and>
   sint (accumulate (take 20 (replicate 20 1023)) 0) = 20460 \<and>
   sint (average (replicate 20 1023)) = 1023"
  using accumulator_no_overflow [of "replicate 20 1023"]
  by (simp add: sum_list_replicate)

section \<open>RF power\<close>

text \<open>
  C1. The reading depends on the filtered sample \<open>s16Tmp\<close> alone for its validity:
  above 583 it is "RF low!", below 167 it is "RF ovl!", whatever the attenuation and
  whatever dBm value the calibration line gives. From 167 to 583 the dBm value of the
  calibration line plus the attenuation is reported, with the unit and magnitude that
  the autorange derives from that sum. In a pass of \<open>loop()\<close> the sample tested is the
  average that the filter returns for the array it leaves behind. The calibration line
  is \<open>(-2750/67) * ((s16Tmp + 0.5) * (2.542/1024)) + 1820/67\<close>.
\<close>

theorem rf_power_validity:
  "(583 < sint s \<longrightarrow> rf_power s att = RF_low) \<and>
   (sint s < 167 \<longrightarrow> rf_power s att = RF_ovl) \<and>
   (167 \<le> sint s \<and> sint s \<le> 583 \<longrightarrow>
      rf_power s att =
        Power (dbm_linear s + real (unat att))
          (fst (autorange (dbm_linear s + real (unat att))))
          (snd (autorange (dbm_linear s + real (unat att))))) \<and>
   (rf_power s att = RF_low) = (583 < sint s) \<and>
   (rf_power s att = RF_ovl) = (sint s < 167) \<and>
   (loop_rf_power raw att f = Some (r, f') \<longrightarrow>
      filter_insert raw f = Some (average (as16URaw f'), f') \<and>
      r = rf_power (average (as16URaw f')) att) \<and>
   dbm_linear s =
     (- 2750 / 67) * ((real_of_int (sint s) + 1 / 2) * (2542 / 1000 / 1024)) + 1820 / 67"
proof -
  have m: "dbm_linear s =
     (- 2750 / 67) * ((real_of_int (sint s) + 1 / 2) * (2542 / 1000 / 1024)) + 1820 / 67"
    by (simp add: dbm_linear_def ADCREF_def)
  have "filter_insert raw f = Some (average (as16URaw f'), f') \<and>
        r = rf_power (average (as16URaw f')) att"
    if "loop_rf_power raw att f = Some (r, f')"
    using that
    by (auto simp: loop_rf_power_def filter_insert_def Let_def split: if_splits)
  then have "(583 < sint s \<longrightarrow> rf_power s att = RF_low) \<and>
   (sint s < 167 \<longrightarrow> rf_power s att = RF_ovl) \<and>
   (167 \<le> sint s \<and> sint s \<le> 583 \<longrightarrow>
      rf_power s att =
        Power (dbm_linear s + real (unat att))
          (fst (autorange (dbm_linear s + real (unat att))))
          (snd (autorange (dbm_linear s + real (unat att))))) \<and>
   (rf_power s att = RF_low) = (583 < sint s) \<and>
   (rf_power s att = RF_ovl) = (sint s < 167) \<and>
   (loop_rf_power raw att f = Some (r, f') \<longrightarrow>
      filter_insert raw f = Some (average (as16URaw f'), f') \<and>
      r = rf_power (average (as16URaw f')) att)"
    by (simp add: rf_power_def Let_def)
  then show ?thesis using m by blast
qed

theorem rf_power_validity_witness:
  "583 < sint (584 :: 16 word) \<and> rf_power 584 10 = RF_low \<and>
   sint (166 :: 16 word) < 167 \<and> rf_power 166 10 = RF_ovl \<and>
   167 \<le> sint (400 :: 16 word) \<and> sint (400 :: 16 word) \<le> 583 \<and>
   rf_power 400 10 =
     Power (dbm_linear 400 + 10) (fst (autorange (dbm_linear 400 + 10)))
       (snd (autorange (dbm_linear 400 + 10))) \<and>
   loop_rf_power 1023 10
     \<lparr>as16URaw = [584, 584, 584, 584, 584, 584, 584, 584, 584, 584,
                   584, 584, 584, 584, 584, 584, 584, 584, 584, 584], u8IdxURaw = 19\<rparr> =
     Some (RF_low,
       \<lparr>as16URaw = [584, 584, 584, 584, 584, 584, 584, 584, 584, 584,
                     584, 584, 584, 584, 584, 584, 584, 584, 584, 1023], u8IdxURaw = 0\<rparr>)"
  using rf_power_validity [of 584 10] rf_power_validity [of 166 10]
    rf_power_validity [of 400 10]
    rf_power_validity [of 605 10 1023
      "\<lparr>as16URaw = [584, 584, 584, 584, 584, 584, 584, 584, 584, 584,
                     584, 584, 584, 584, 584, 584, 584, 584, 584, 584], u8IdxURaw = 19\<rparr>"
      RF_low
      "\<lparr>as16URaw = [584, 584, 584, 584, 584, 584, 584, 584, 584, 584,
                     584, 584, 584, 584, 584, 584, 584, 584, 584, 1023], u8IdxURaw = 0\<rparr>"]
  by (simp add: loop_rf_power_def filter_insert_def average_def rf_power_def Let_def)

text \<open>
  C2, evaluated on the code. The filtered sample 167 is inside the validity window of
  lines 266 and 273 and the calibration line of line 264 gives it more than 10 dBm, so
  with attenuation 0 the display shows a value above +5 dBm. Every sample from 167 to
  217 is in the same case; 218 is the first one at or below +5 dBm. At the other end
  583 gives about -32.3 dBm, so readings between -50 and -32.3 dBm are shown as
  "RF low!". The comments of lines 263, 266 and 273 place the two limits at 1.88 V
  (-50 dBm) and 0.54 V (+5 dBm); with \<open>ADCREF\<close> = 2.542 V the samples 583 and 167 are
  about 1.45 V and 0.42 V.
\<close>

theorem valid_window_exceeds_range:
  "rf_power 167 0 = Power (dbm_linear 167) MW (10 powr (dbm_linear 167 / 10)) \<and>
   10 < dbm_linear 167 \<and> 5 < dbm_linear 217 \<and> dbm_linear 218 < 5 \<and>
   - 33 < dbm_linear 583 \<and> dbm_linear 583 < - 32 \<and>
   map_option (last \<circ> fst)
     (feed (replicate 20 167) \<lparr>as16URaw = replicate 20 167, u8IdxURaw = 0\<rparr>) = Some 167"
proof -
  have d: "10 < dbm_linear 167" "5 < dbm_linear 217" "dbm_linear 218 < 5"
    "- 33 < dbm_linear 583" "dbm_linear 583 < - 32"
    by (simp_all add: dbm_linear_def ADCREF_def)
  have "dbm_linear 167 < 30" by (simp add: dbm_linear_def ADCREF_def)
  then have p: "rf_power 167 0 = Power (dbm_linear 167) MW (10 powr (dbm_linear 167 / 10))"
    using d(1) by (simp add: rf_power_def Let_def autorange_def)
  have "\<exists>as f'. feed (replicate 20 167) \<lparr>as16URaw = replicate 20 167, u8IdxURaw = 0\<rparr> =
          Some (as, f') \<and> last as = average (as16URaw f') \<and> as16URaw f' = replicate 20 167"
  proof -
    have ok: "filter_ok \<lparr>as16URaw = replicate 20 167, u8IdxURaw = 0\<rparr>"
      by (simp add: filter_ok_def)
    from feed_ok [OF ok, of "replicate 20 167"] obtain as f' where
      r: "feed (replicate 20 167) \<lparr>as16URaw = replicate 20 167, u8IdxURaw = 0\<rparr> = Some (as, f')"
        "filter_ok f'" "last as = average (as16URaw f')" by auto
    have "as16URaw f' = replicate 20 167" by (rule feed_20_all [OF ok r(1,2)])
    then show ?thesis using r by blast
  qed
  then have f: "map_option (last \<circ> fst)
     (feed (replicate 20 167) \<lparr>as16URaw = replicate 20 167, u8IdxURaw = 0\<rparr>) = Some 167"
    using average_replicate [of 167] by auto
  show ?thesis using d p f by blast
qed

section \<open>Autorange\<close>

text \<open>
  C8. The unit follows from strict comparisons of the dBm value with -30, 0 and 30:
  below -30 nanowatts, from -30 up to but not including 0 microwatts (printed "uW"),
  from 0 up to but not including 30 milliwatts, from 30 on watts. The magnitude is
  \<open>10 powr (dBm / 10)\<close> milliwatts scaled by \<open>10^6\<close>, \<open>10^3\<close>, 1 and \<open>10^-3\<close>. Exactly
  -30 dBm is in microwatts, exactly 0 dBm in milliwatts and exactly 30 dBm in watts.
  The unit texts printed are "nW", "uW", "mW" and "W ".
\<close>

theorem autorange_buckets:
  "(d < - 30 \<longrightarrow> autorange d = (NW, 10 powr (d / 10) * 1000000)) \<and>
   (- 30 \<le> d \<and> d < 0 \<longrightarrow> autorange d = (UW, 10 powr (d / 10) * 1000)) \<and>
   (0 \<le> d \<and> d < 30 \<longrightarrow> autorange d = (MW, 10 powr (d / 10))) \<and>
   (30 \<le> d \<longrightarrow> autorange d = (W, 10 powr (d / 10) / 1000)) \<and>
   unit_suffix (fst (autorange (- 30))) = ''uW'' \<and>
   unit_suffix (fst (autorange 0)) = ''mW'' \<and>
   unit_suffix (fst (autorange 30)) = ''W '' \<and>
   unit_suffix (fst (autorange d)) =
     (if d < - 30 then ''nW'' else if d < 0 then ''uW'' else if d < 30 then ''mW'' else ''W '')"
  by (simp add: autorange_def)

theorem autorange_buckets_witness:
  "fst (autorange (- 31)) = NW \<and> fst (autorange (- 30)) = UW \<and> fst (autorange (- 1)) = UW \<and>
   autorange 0 = (MW, 1) \<and> fst (autorange 29) = MW \<and> autorange 30 = (W, 1) \<and>
   fst (autorange 54) = W"
  using autorange_buckets [of "- 31"] autorange_buckets [of "- 30"] autorange_buckets [of "- 1"]
    autorange_buckets [of 0] autorange_buckets [of 29] autorange_buckets [of 30]
    autorange_buckets [of 54]
  by simp

end
